theory Spec2Isabelle
  imports Main "HOL-Library.Sublist"
begin

section \<open>Strings of the host language\<close>

text \<open>
  Strings are lists of 8-bit code units. Of the characters that \<^verbatim>\<open>String.prototype.trim\<close>
  and the regular-expression class \<^verbatim>\<open>\s\<close> treat as white space (the two sets coincide),
  these are the ones below 256: TAB, LF, VT, FF, CR, SPACE and NBSP.
\<close>

definition is_space :: "char \<Rightarrow> bool" where
  "is_space c \<longleftrightarrow> (of_char c :: nat) \<in> {9, 10, 11, 12, 13, 32, 160}"

text \<open>\<^verbatim>\<open>s.trim()\<close>\<close>

definition trim :: "string \<Rightarrow> string" where
  "trim s = rev (dropWhile is_space (rev (dropWhile is_space s)))"

text \<open>\<^verbatim>\<open>hay.includes(needle)\<close>: some suffix of \<open>hay\<close> starts with \<open>needle\<close>.\<close>

fun str_includes :: "string \<Rightarrow> string \<Rightarrow> bool" where
  "str_includes [] needle = (needle = [])"
| "str_includes (h # hay) needle = (prefix needle (h # hay) \<or> str_includes hay needle)"

text \<open>\<^verbatim>\<open>s.substring(0, n)\<close> is \<open>take n s\<close>. \<^verbatim>\<open>n.toString()\<close> for a non-negative integer:\<close>

definition digit_char :: "nat \<Rightarrow> char" where
  "digit_char d = char_of (48 + d)"

fun toString :: "nat \<Rightarrow> string" where
  "toString n = (if n < 10 then [digit_char n] else toString (n div 10) @ [digit_char (n mod 10)])"

declare toString.simps [simp del]

section \<open>The fence pattern\<close>

text \<open>
  The pattern \<^verbatim>\<open>/^```(?:json)?\s*\n?(.*?)\n?\s*```$/s\<close> uses five constructs: a literal,
  a greedy optional literal, a greedy star over a character class, a lazy star over a
  character class inside capture group 1, and the end anchor. The matcher below is the
  backtracking matcher restricted to them: a greedy construct tries to consume first and
  falls back, the lazy group tries the rest of the pattern first and consumes one more
  character when that fails. The leading \<^verbatim>\<open>^\<close> (without the \<^verbatim>\<open>m\<close> flag) means that
  only an attempt at index 0 can succeed, so the matcher runs on the whole string. With
  the \<^verbatim>\<open>s\<close> flag the dot is every character. The result is the text of group 1 of the
  first match found, \<open>None\<close> when \<^verbatim>\<open>match\<close> returns \<^verbatim>\<open>null\<close>.
\<close>

datatype rx =
    Lit string
  | Opt string
  | Star "char \<Rightarrow> bool"
  | LazyGroup "char \<Rightarrow> bool" string
  | Eos

fun rx_match :: "rx list \<Rightarrow> string \<Rightarrow> string \<Rightarrow> string option" where
  "rx_match [] s cap = Some cap"
| "rx_match (Lit l # rs) s cap =
     (if prefix l s then rx_match rs (drop (length l) s) cap else None)"
| "rx_match (Opt l # rs) s cap =
     (if prefix l s
      then (case rx_match rs (drop (length l) s) cap of
              Some m \<Rightarrow> Some m
            | None \<Rightarrow> rx_match rs s cap)
      else rx_match rs s cap)"
| "rx_match (Star cls # rs) [] cap = rx_match rs [] cap"
| "rx_match (Star cls # rs) (c # s) cap =
     (if cls c
      then (case rx_match (Star cls # rs) s cap of
              Some m \<Rightarrow> Some m
            | None \<Rightarrow> rx_match rs (c # s) cap)
      else rx_match rs (c # s) cap)"
| "rx_match (LazyGroup cls acc # rs) s cap =
     (case rx_match rs s acc of
        Some m \<Rightarrow> Some m
      | None \<Rightarrow>
          (case s of
             [] \<Rightarrow> None
           | c # s' \<Rightarrow> if cls c then rx_match (LazyGroup cls (acc @ [c]) # rs) s' cap else None))"
| "rx_match (Eos # rs) s cap = (if s = [] then rx_match rs s cap else None)"

definition fenceRegex :: "rx list" where
  "fenceRegex =
     [Lit ''```'', Opt ''json'', Star is_space, Opt ''\<newline>'',
      LazyGroup (\<lambda>c. True) [],
      Opt ''\<newline>'', Star is_space, Lit ''```'', Eos]"

definition match_fence :: "string \<Rightarrow> string option" where
  "match_fence s = rx_match fenceRegex s []"

section \<open>JSON values and \<^verbatim>\<open>JSON.parse\<close>\<close>

text \<open>
  A number keeps its lexeme. An object keeps its members in source order; a later member
  with the same key overrides an earlier one when a property is read.
\<close>

datatype json =
    JNull
  | JBool bool
  | JNum string
  | JStr string
  | JArr "json list"
  | JObj "(string \<times> json) list"

definition json_ws :: "char \<Rightarrow> bool" where
  "json_ws c \<longleftrightarrow> (of_char c :: nat) \<in> {9, 10, 13, 32}"

definition skip_ws :: "string \<Rightarrow> string" where
  "skip_ws s = dropWhile json_ws s"

definition is_digit :: "char \<Rightarrow> bool" where
  "is_digit c \<longleftrightarrow> 48 \<le> (of_char c :: nat) \<and> (of_char c :: nat) \<le> 57"

definition hex_val :: "char \<Rightarrow> nat option" where
  "hex_val c =
     (let n = (of_char c :: nat) in
      if 48 \<le> n \<and> n \<le> 57 then Some (n - 48)
      else if 65 \<le> n \<and> n \<le> 70 then Some (n - 55)
      else if 97 \<le> n \<and> n \<le> 102 then Some (n - 87)
      else None)"

text \<open>
  The four hex digits of a \<^verbatim>\<open>\u\<close> escape. An escape that denotes a code unit above 255
  has no value in the 8-bit string model.
\<close>

definition unicode_escape :: "string \<Rightarrow> char option" where
  "unicode_escape h =
     (case map hex_val h of
        [Some a, Some b, Some c, Some d] \<Rightarrow>
          (let n = ((a * 16 + b) * 16 + c) * 16 + d in
           if n < 256 then Some (char_of n) else None)
      | _ \<Rightarrow> None)"

definition simple_escape :: "char \<Rightarrow> char option" where
  "simple_escape e =
     (if e = CHR 0x22 then Some (CHR 0x22)
      else if e = CHR 0x5C then Some (CHR 0x5C)
      else if e = CHR ''/'' then Some (CHR ''/'')
      else if e = CHR ''b'' then Some (CHR 0x08)
      else if e = CHR ''f'' then Some (CHR 0x0C)
      else if e = CHR ''n'' then Some (CHR 0x0A)
      else if e = CHR ''r'' then Some (CHR 0x0D)
      else if e = CHR ''t'' then Some (CHR 0x09)
      else None)"

text \<open>The characters of a string literal after its opening quote, up to the closing one.\<close>

function json_string :: "string \<Rightarrow> string \<Rightarrow> (string \<times> string) option" where
  "json_string acc [] = None"
| "json_string acc (c # cs) =
     (if c = CHR 0x22 then Some (rev acc, cs)
      else if c = CHR 0x5C then
        (case cs of
           [] \<Rightarrow> None
         | e # es \<Rightarrow>
             if e = CHR ''u'' then
               (if length es < 4 then None
                else (case unicode_escape (take 4 es) of
                        None \<Rightarrow> None
                      | Some u \<Rightarrow> json_string (u # acc) (drop 4 es)))
             else (case simple_escape e of
                     None \<Rightarrow> None
                   | Some x \<Rightarrow> json_string (x # acc) es))
      else if (of_char c :: nat) < 32 then None
      else json_string (c # acc) cs)"
  by pat_completeness auto
termination
  by (relation "measure (\<lambda>(acc, s). length s)") auto

text \<open>
  A number: \<^verbatim>\<open>-? (0 | [1-9][0-9]*) (. [0-9]+)? ([eE] [+-]? [0-9]+)?\<close>. Each part returns
  the text it consumed and the rest.
\<close>

definition number_int :: "string \<Rightarrow> (string \<times> string) option" where
  "number_int s =
     (case s of
        [] \<Rightarrow> None
      | c # cs \<Rightarrow>
          if c = CHR ''0'' then Some ([c], cs)
          else if is_digit c then Some (c # takeWhile is_digit cs, dropWhile is_digit cs)
          else None)"

definition number_frac :: "string \<Rightarrow> (string \<times> string) option" where
  "number_frac s =
     (case s of
        c # d # cs \<Rightarrow>
          if c = CHR ''.'' then
            (if is_digit d then Some (c # d # takeWhile is_digit cs, dropWhile is_digit cs)
             else None)
          else Some ([], s)
      | [c] \<Rightarrow> if c = CHR ''.'' then None else Some ([], s)
      | [] \<Rightarrow> Some ([], s))"

definition number_digits1 :: "string \<Rightarrow> (string \<times> string) option" where
  "number_digits1 s =
     (case s of
        [] \<Rightarrow> None
      | d # cs \<Rightarrow>
          if is_digit d then Some (d # takeWhile is_digit cs, dropWhile is_digit cs) else None)"

definition number_exp :: "string \<Rightarrow> (string \<times> string) option" where
  "number_exp s =
     (case s of
        [] \<Rightarrow> Some ([], s)
      | c # cs \<Rightarrow>
          if c = CHR ''e'' \<or> c = CHR ''E'' then
            (case cs of
               [] \<Rightarrow> None
             | g # ds \<Rightarrow>
                 if g = CHR ''+'' \<or> g = CHR ''-''
                 then map_option (\<lambda>(t, r). (c # g # t, r)) (number_digits1 ds)
                 else map_option (\<lambda>(t, r). (c # t, r)) (number_digits1 cs))
          else Some ([], s))"

definition json_number :: "string \<Rightarrow> (string \<times> string) option" where
  "json_number s =
     (let (sign, s1) = (case s of c # cs \<Rightarrow> if c = CHR ''-'' then ([c], cs) else ([], s) | [] \<Rightarrow> ([], s))
      in case number_int s1 of
           None \<Rightarrow> None
         | Some (i, s2) \<Rightarrow>
             (case number_frac s2 of
                None \<Rightarrow> None
              | Some (f, s3) \<Rightarrow>
                  (case number_exp s3 of
                     None \<Rightarrow> None
                   | Some (e, s4) \<Rightarrow> Some (sign @ i @ f @ e, s4))))"

lemma length_skip_ws: "length (skip_ws s) \<le> length s"
  by (simp add: skip_ws_def length_dropWhile_le)

lemma skip_ws_Cons_shorter: "skip_ws s = c # cs \<Longrightarrow> length cs < length s"
  using length_skip_ws [of s] by simp

text \<open>
  A value, the elements of an array after \<^verbatim>\<open>[\<close> or a comma, and the members of an
  object after \<^verbatim>\<open>{\<close> or a comma. Each returns the value and the unread rest. The test
  that the rest got shorter is there for the termination proof only: it always holds
  (lemmas \<open>json_value_shorter\<close>, \<open>json_elements_unguarded\<close>, \<open>json_members_unguarded\<close>).
\<close>

function json_value :: "string \<Rightarrow> (json \<times> string) option"
  and json_elements :: "json list \<Rightarrow> string \<Rightarrow> (json \<times> string) option"
  and json_members :: "(string \<times> json) list \<Rightarrow> string \<Rightarrow> (json \<times> string) option"
where
  "json_value s =
     (case skip_ws s of
        [] \<Rightarrow> None
      | c # cs \<Rightarrow>
          if c = CHR ''{'' then
            (case skip_ws cs of
               [] \<Rightarrow> None
             | d # ds \<Rightarrow> if d = CHR ''}'' then Some (JObj [], ds) else json_members [] cs)
          else if c = CHR ''['' then
            (case skip_ws cs of
               [] \<Rightarrow> None
             | d # ds \<Rightarrow> if d = CHR '']'' then Some (JArr [], ds) else json_elements [] cs)
          else if c = CHR 0x22 then map_option (\<lambda>(t, r). (JStr t, r)) (json_string [] cs)
          else if prefix ''true'' (c # cs) then Some (JBool True, drop 4 (c # cs))
          else if prefix ''false'' (c # cs) then Some (JBool False, drop 5 (c # cs))
          else if prefix ''null'' (c # cs) then Some (JNull, drop 4 (c # cs))
          else map_option (\<lambda>(t, r). (JNum t, r)) (json_number (c # cs)))"
| "json_elements acc s =
     (case json_value s of
        None \<Rightarrow> None
      | Some (v, r) \<Rightarrow>
          if length r < length s then
            (case skip_ws r of
               [] \<Rightarrow> None
             | d # ds \<Rightarrow>
                 if d = CHR '','' then json_elements (v # acc) ds
                 else if d = CHR '']'' then Some (JArr (rev (v # acc)), ds)
                 else None)
          else None)"
| "json_members acc s =
     (case skip_ws s of
        [] \<Rightarrow> None
      | q # ks \<Rightarrow>
          if q = CHR 0x22 then
            (case json_string [] ks of
               None \<Rightarrow> None
             | Some (k, r0) \<Rightarrow>
                 (case skip_ws r0 of
                    [] \<Rightarrow> None
                  | colon # vs \<Rightarrow>
                      if colon = CHR '':'' \<and> length vs < length s then
                        (case json_value vs of
                           None \<Rightarrow> None
                         | Some (v, r) \<Rightarrow>
                             if length r < length s then
                               (case skip_ws r of
                                  [] \<Rightarrow> None
                                | d # ds \<Rightarrow>
                                    if d = CHR '','' then json_members ((k, v) # acc) ds
                                    else if d = CHR ''}'' then Some (JObj (rev ((k, v) # acc)), ds)
                                    else None)
                             else None)
                      else None))
          else None)"
  by pat_completeness auto

termination
  by (relation "measure (\<lambda>x. case x of
          Inl s \<Rightarrow> 2 * length s
        | Inr (Inl (acc, s)) \<Rightarrow> 2 * length s + 1
        | Inr (Inr (acc, s)) \<Rightarrow> 2 * length s + 1)")
     (auto dest!: skip_ws_Cons_shorter)

declare json_value.simps [simp del] json_elements.simps [simp del] json_members.simps [simp del]

text \<open>\<^verbatim>\<open>JSON.parse(text)\<close>: \<open>None\<close> is the \<^verbatim>\<open>SyntaxError\<close>.\<close>

definition JSON_parse :: "string \<Rightarrow> json option" where
  "JSON_parse s =
     (case json_value s of
        None \<Rightarrow> None
      | Some (v, r) \<Rightarrow> if skip_ws r = [] then Some v else None)"

text \<open>
  Reading one of the properties \<^verbatim>\<open>title\<close>, \<^verbatim>\<open>content\<close>, \<^verbatim>\<open>imagePrompt\<close> of a parsed
  value other than \<^verbatim>\<open>null\<close>: an object gives its member (the last one with that key),
  and \<open>None\<close>, for \<^verbatim>\<open>undefined\<close>, when it has none; a number, a string, a boolean or an
  array has none of the three.
\<close>

fun get_prop :: "json \<Rightarrow> string \<Rightarrow> json option" where
  "get_prop (JObj ms) k = map_of (rev ms) k"
| "get_prop v k = None"

text \<open>
  Truthiness of a property that was read. A number is falsy when its value is zero: when
  its digits are all zero, or when the decimal value rounds to zero as a double, which is
  the case up to \<open>2\<^sup>-\<^sup>1\<^sup>0\<^sup>7\<^sup>5\<close>, half the smallest subnormal.
\<close>

definition digits_value :: "string \<Rightarrow> int" where
  "digits_value ds = foldl (\<lambda>n d. 10 * n + ((of_char d :: int) - 48)) 0 ds"

definition number_is_zero :: "string \<Rightarrow> bool" where
  "number_is_zero l =
     (let body = (case l of c # cs \<Rightarrow> if c = CHR ''-'' then cs else l | [] \<Rightarrow> l);
          not_e = (\<lambda>c. c \<noteq> CHR ''e'' \<and> c \<noteq> CHR ''E'');
          mant = takeWhile not_e body;
          ex = drop 1 (dropWhile not_e body);
          ip = takeWhile (\<lambda>c. c \<noteq> CHR ''.'') mant;
          fp = drop 1 (dropWhile (\<lambda>c. c \<noteq> CHR ''.'') mant);
          m = digits_value (ip @ fp);
          e = (case ex of
                 [] \<Rightarrow> 0
               | g # ds \<Rightarrow>
                   if g = CHR ''-'' then - digits_value ds
                   else if g = CHR ''+'' then digits_value ds
                   else digits_value ex) - int (length fp)
      in m = 0 \<or> (e < 0 \<and> m * 2 ^ 1075 \<le> 10 ^ nat (- e)))"

fun truthy :: "json option \<Rightarrow> bool" where
  "truthy None = False"
| "truthy (Some JNull) = False"
| "truthy (Some (JBool b)) = b"
| "truthy (Some (JNum l)) = (\<not> number_is_zero l)"
| "truthy (Some (JStr t)) = (t \<noteq> [])"
| "truthy (Some (JArr xs)) = True"
| "truthy (Some (JObj ms)) = True"

section \<open>types.ts\<close>

record BlogPost =
  id :: string
  title :: string
  content :: string
  excerpt :: string
  date :: string
  imageUrl :: "string option"

text \<open>
  \<^verbatim>\<open>BlogPostContent\<close>: the view of the parsed object that the program reads. The image
  prompt is whatever value the payload has under that key.
\<close>

record BlogPostContent =
  title :: string
  content :: string
  imagePrompt :: "json option"

text \<open>\<^verbatim>\<open>BlogPostContent & { imageUrl?: string }\<close>\<close>

record Generated = BlogPostContent +
  imageUrl :: "string option"

section \<open>services/geminiService.ts\<close>

text \<open>
  A thrown value: an instance of \<^verbatim>\<open>Error\<close> with its message, or any other value.
  Inside the \<^verbatim>\<open>try\<close> block of the parser the engine itself can raise a
  \<^verbatim>\<open>SyntaxError\<close> (from \<^verbatim>\<open>JSON.parse\<close>) or a \<^verbatim>\<open>TypeError\<close> (a property read on
  \<^verbatim>\<open>null\<close>); their messages are the engine's and the \<^verbatim>\<open>catch\<close> block drops them.
\<close>

datatype thrown = Error string | NonError

datatype raised = SyntaxError | TypeError | Thrown thrown

text \<open>The body of the \<^verbatim>\<open>try\<close> block of \<^verbatim>\<open>parseGeminiJsonResponse\<close>.\<close>

definition parse_try :: "string \<Rightarrow> raised + BlogPostContent" where
  "parse_try jsonStr =
     (case JSON_parse jsonStr of
        None \<Rightarrow> Inl SyntaxError
      | Some parsed \<Rightarrow>
          if parsed = JNull then Inl TypeError
          else
            (case (get_prop parsed ''title'', get_prop parsed ''content'') of
               (Some (JStr t), Some (JStr c)) \<Rightarrow>
                 Inr \<lparr>title = t, content = c, imagePrompt = get_prop parsed ''imagePrompt''\<rparr>
             | _ \<Rightarrow>
                 Inl (Thrown (Error ''AI response has an invalid data structure for blog content.''))))"

text \<open>The text that is parsed: trimmed, and without its fence when group 1 is not empty.\<close>

definition strip_fence :: "string \<Rightarrow> string" where
  "strip_fence responseText =
     (let jsonStr = trim responseText in
      case match_fence jsonStr of
        None \<Rightarrow> jsonStr
      | Some g \<Rightarrow> if g \<noteq> [] then trim g else jsonStr)"

text \<open>The \<^verbatim>\<open>catch\<close> block receives whatever the \<^verbatim>\<open>try\<close> block raised, its own \<^verbatim>\<open>throw\<close> included.\<close>

definition parseGeminiJsonResponse :: "string \<Rightarrow> thrown + BlogPostContent" where
  "parseGeminiJsonResponse responseText =
     (case parse_try (strip_fence responseText) of
        Inr blogContent \<Rightarrow> Inr blogContent
      | Inl e \<Rightarrow>
          Inl (Error ''Failed to parse AI response for blog content. The response was not valid JSON.''))"

text \<open>
  The two upstream calls. Each is a function from the request to its outcome: it throws, or
  it returns the text of the response (\<^verbatim>\<open>contentResponse.text\<close>), respectively the
  response with its optional fields. The calls that a run makes are returned in order.
\<close>

record Image =
  imageBytes :: "string option"

record GeneratedImage =
  image :: "Image option"

record GenerateImagesResponse =
  generatedImages :: "GeneratedImage list option"

record upstream =
  generateContent :: "string \<Rightarrow> thrown + string"
  generateImages :: "json option \<Rightarrow> thrown + GenerateImagesResponse"

datatype api_call = GenerateContent string | GenerateImages "json option"

text \<open>
  \<^verbatim>\<open>response.generatedImages && response.generatedImages.length > 0 &&
  response.generatedImages[0].image?.imageBytes\<close>
\<close>

definition image_bytes :: "GenerateImagesResponse \<Rightarrow> string option" where
  "image_bytes response =
     (case generatedImages response of
        None \<Rightarrow> None
      | Some [] \<Rightarrow> None
      | Some (g # gs) \<Rightarrow>
          (case image g of
             None \<Rightarrow> None
           | Some i \<Rightarrow>
               (case imageBytes i of
                  None \<Rightarrow> None
                | Some b \<Rightarrow> if b \<noteq> [] then Some b else None)))"

definition generateImage :: "upstream \<Rightarrow> json option \<Rightarrow> (thrown + string option) \<times> api_call list" where
  "generateImage up prompt =
     (if \<not> truthy prompt then (Inr None, [])
      else
        (case generateImages up prompt of
           Inr response \<Rightarrow>
             (case image_bytes response of
                Some base64ImageBytes \<Rightarrow>
                  (Inr (Some (''data:image/jpeg;base64,'' @ base64ImageBytes)), [GenerateImages prompt])
              | None \<Rightarrow> (Inr None, [GenerateImages prompt]))
         | Inl (Error message) \<Rightarrow>
             if str_includes message ''API key not valid''
             then (Inl (Error ''Invalid API Key for image generation. Please ensure your Gemini API key is correctly configured.''),
                   [GenerateImages prompt])
             else (Inr None, [GenerateImages prompt])
         | Inl NonError \<Rightarrow> (Inr None, [GenerateImages prompt])))"

definition content_prompt :: "string \<Rightarrow> string" where
  \<open>content_prompt topic =
     ''Generate a compelling blog post about "'' @ topic @
     ''". The post should have a captivating title, well-structured content (around 250-400 words), and a concise, descriptive prompt for an image that would visually represent the blog post. Format the response as a JSON object with three keys: "title" (string), "content" (string), and "imagePrompt" (string for generating an image). For example: {"title": "The Future of Renewable Energy", "content": "Renewable energy is rapidly transforming our world...", "imagePrompt": "Futuristic cityscape powered by solar panels and wind turbines under a clear blue sky"}''\<close>

text \<open>The \<^verbatim>\<open>catch\<close> block of \<^verbatim>\<open>generateBlogPostContent\<close>.\<close>

fun content_catch :: "thrown \<Rightarrow> thrown" where
  "content_catch (Error message) =
     (if str_includes message ''API key not valid''
      then Error ''Invalid API Key. Please ensure your Gemini API key is correctly configured.''
      else Error (''Gemini API error: '' @ message))"
| "content_catch NonError = Error ''An unknown error occurred while generating blog post content.''"

text \<open>\<^verbatim>\<open>{ ...blogContent, imageUrl }\<close>\<close>

definition spread :: "BlogPostContent \<Rightarrow> string option \<Rightarrow> Generated" where
  "spread blogContent url =
     \<lparr>title = title blogContent, content = content blogContent,
      imagePrompt = imagePrompt blogContent, imageUrl = url\<rparr>"

definition generateBlogPostContent :: "upstream \<Rightarrow> string \<Rightarrow> (thrown + Generated) \<times> api_call list" where
  "generateBlogPostContent up topic =
     (let prompt = content_prompt topic in
      case generateContent up prompt of
        Inl e \<Rightarrow> (Inl (content_catch e), [GenerateContent prompt])
      | Inr text \<Rightarrow>
          (case parseGeminiJsonResponse text of
             Inl e \<Rightarrow> (Inl (content_catch e), [GenerateContent prompt])
           | Inr blogContent \<Rightarrow>
               if truthy (imagePrompt blogContent) then
                 (case generateImage up (imagePrompt blogContent) of
                    (Inl e, calls) \<Rightarrow> (Inl (content_catch e), GenerateContent prompt # calls)
                  | (Inr url, calls) \<Rightarrow>
                      (Inr (spread blogContent url), GenerateContent prompt # calls))
               else (Inr (spread blogContent None), [GenerateContent prompt])))"

section \<open>App.tsx\<close>

record AppState =
  posts :: "BlogPost list"
  selectedPost :: "BlogPost option"
  isLoading :: bool
  error :: "string option"
  topic :: string
  isGenerating :: bool

text \<open>
  \<^verbatim>\<open>handleGeneratePost\<close> up to its \<^verbatim>\<open>await\<close>: the guard returns at once, leaving the state
  alone and asking for nothing; otherwise the two flags are set and the content for the
  topic is requested.
\<close>

definition handleGeneratePost_start :: "AppState \<Rightarrow> AppState \<times> string option" where
  "handleGeneratePost_start s =
     (if trim (topic s) = [] \<or> isGenerating s then (s, None)
      else (s\<lparr>isGenerating := True, error := None\<rparr>, Some (topic s)))"

text \<open>
  \<^verbatim>\<open>handleGeneratePost\<close> after the \<^verbatim>\<open>await\<close>, on the state of that moment: the rest of
  the \<^verbatim>\<open>try\<close> block, or the \<^verbatim>\<open>catch\<close> block, and then \<^verbatim>\<open>finally\<close>. \<open>now\<close> is
  \<^verbatim>\<open>Date.now()\<close> and \<open>today\<close> the formatted date of that moment.
\<close>

definition handleGeneratePost_settle :: "nat \<Rightarrow> string \<Rightarrow> thrown + Generated \<Rightarrow> AppState \<Rightarrow> AppState" where
  "handleGeneratePost_settle now today outcome s =
     (case outcome of
        Inr data \<Rightarrow>
          (let newPost = \<lparr>id = toString now,
                          title = BlogPostContent.title data,
                          content = BlogPostContent.content data,
                          excerpt = take 150 (BlogPostContent.content data) @ ''...'',
                          date = today,
                          imageUrl = Generated.imageUrl data\<rparr>
           in s\<lparr>posts := newPost # posts s, topic := [], isGenerating := False\<rparr>)
      | Inl (Error message) \<Rightarrow> s\<lparr>error := Some message, isGenerating := False\<rparr>
      | Inl NonError \<Rightarrow>
          s\<lparr>error := Some ''An unknown error occurred while generating the post.'',
            isGenerating := False\<rparr>)"

text \<open>A submission that runs to its end with nothing else happening in between.\<close>

definition handleGeneratePost :: "upstream \<Rightarrow> nat \<Rightarrow> string \<Rightarrow> AppState \<Rightarrow> AppState \<times> api_call list" where
  "handleGeneratePost up now today s =
     (case handleGeneratePost_start s of
        (s', None) \<Rightarrow> (s', [])
      | (s', Some t) \<Rightarrow>
          (case generateBlogPostContent up t of
             (outcome, calls) \<Rightarrow> (handleGeneratePost_settle now today outcome s', calls)))"

section \<open>Notions of the specification\<close>

text \<open>
  A payload inside a fenced code block: the opening fence with its tag (none, or
  \<^verbatim>\<open>json\<close>), a line break, the payload, a line break, the closing fence.
\<close>

definition fenced :: "string \<Rightarrow> string \<Rightarrow> string" where
  "fenced tag p = ''```'' @ tag @ ''\<newline>'' @ p @ ''\<newline>'' @ ''```''"

text \<open>
  An authentication error is what both \<^verbatim>\<open>catch\<close> blocks of the service test for: an
  \<^verbatim>\<open>Error\<close> whose message contains the marker.
\<close>

definition is_auth_error :: "thrown \<Rightarrow> bool" where
  "is_auth_error e =
     (case e of Error message \<Rightarrow> str_includes message ''API key not valid'' | NonError \<Rightarrow> False)"

text \<open>The upstream image call failed: it threw, or its response has no image bytes.\<close>

definition image_failure :: "thrown + GenerateImagesResponse \<Rightarrow> bool" where
  "image_failure outcome =
     (case outcome of Inl e \<Rightarrow> True | Inr response \<Rightarrow> image_bytes response = None)"

definition auth_failure :: "thrown + GenerateImagesResponse \<Rightarrow> bool" where
  "auth_failure outcome = (case outcome of Inl e \<Rightarrow> is_auth_error e | Inr response \<Rightarrow> False)"

text \<open>The three errors that the service builds itself.\<close>

definition parse_failure :: thrown where
  "parse_failure =
     Error ''Failed to parse AI response for blog content. The response was not valid JSON.''"

definition structure_failure :: thrown where
  "structure_failure = Error ''AI response has an invalid data structure for blog content.''"

definition image_key_failure :: thrown where
  "image_key_failure =
     Error ''Invalid API Key for image generation. Please ensure your Gemini API key is correctly configured.''"

section \<open>Example inputs\<close>

definition example_payload :: string where
  \<open>example_payload = ''{"title":"T","content":"C","imagePrompt":"P"}''\<close>

definition example_response :: GenerateImagesResponse where
  "example_response =
     \<lparr>generatedImages = Some [\<lparr>image = Some \<lparr>imageBytes = Some ''XYZ''\<rparr>\<rparr>]\<rparr>"

text \<open>Both calls succeed.\<close>

definition example_upstream :: upstream where
  "example_upstream =
     \<lparr>generateContent = (\<lambda>p. Inr example_payload),
      generateImages = (\<lambda>p. Inr example_response)\<rparr>"

text \<open>The text call returns empty strings.\<close>

definition blank_upstream :: upstream where
  \<open>blank_upstream =
     \<lparr>generateContent = (\<lambda>p. Inr ''{"title":"","content":""}''),
      generateImages = (\<lambda>p. Inl NonError)\<rparr>\<close>

text \<open>The image call is refused for its key.\<close>

definition key_upstream :: upstream where
  "key_upstream =
     \<lparr>generateContent = (\<lambda>p. Inr example_payload),
      generateImages = (\<lambda>p. Inl (Error ''API key not valid. Please pass a valid API key.''))\<rparr>"

text \<open>The image call answers without an image.\<close>

definition imageless_upstream :: upstream where
  "imageless_upstream =
     \<lparr>generateContent = (\<lambda>p. Inr example_payload),
      generateImages = (\<lambda>p. Inr \<lparr>generatedImages = None\<rparr>)\<rparr>"

text \<open>The text call throws.\<close>

definition down_upstream :: upstream where
  "down_upstream =
     \<lparr>generateContent = (\<lambda>p. Inl (Error ''fetch failed'')),
      generateImages = (\<lambda>p. Inl NonError)\<rparr>"

definition example_state :: AppState where
  "example_state =
     \<lparr>posts = [], selectedPost = None, isLoading = False, error = None,
      topic = ''The Future of AI'', isGenerating = False\<rparr>"

section \<open>The JSON parser reads forward\<close>

text \<open>
  Whatever the parser returns as the unread rest is shorter than what it was given, so the
  length tests in \<open>json_elements\<close> and \<open>json_members\<close> never fail: both functions satisfy
  their equations without them.
\<close>

lemma json_string_shorter: "json_string acc s = Some (t, r) \<Longrightarrow> length r < length s"
proof (induction acc s rule: json_string.induct)
  case (1 acc)
  then show ?case by simp
next
  case (2 acc c cs)
  show ?case
  proof (cases "c = CHR 0x22")
    case True
    with 2(4) show ?thesis by simp
  next
    case q: False
    show ?thesis
    proof (cases "c = CHR 0x5C")
      case True
      show ?thesis
      proof (cases cs)
        case Nil
        with 2(4) q True show ?thesis by simp
      next
        case (Cons e es)
        show ?thesis
        proof (cases "e = CHR ''u''")
          case u: True
          show ?thesis
          proof (cases "length es < 4")
            case True
            with 2(4) q \<open>c = CHR 0x5C\<close> Cons u show ?thesis by simp
          next
            case False
            show ?thesis
            proof (cases "unicode_escape (take 4 es)")
              case None
              with 2(4) q \<open>c = CHR 0x5C\<close> Cons u False show ?thesis by simp
            next
              case (Some x)
              with 2(4) q \<open>c = CHR 0x5C\<close> Cons u False
              have "json_string (x # acc) (drop 4 es) = Some (t, r)" by simp
              from 2(1) [OF q \<open>c = CHR 0x5C\<close> Cons u False Some this]
              show ?thesis using Cons by simp
            qed
          qed
        next
          case nu: False
          show ?thesis
          proof (cases "simple_escape e")
            case None
            with 2(4) q \<open>c = CHR 0x5C\<close> Cons nu show ?thesis by simp
          next
            case (Some x)
            with 2(4) q \<open>c = CHR 0x5C\<close> Cons nu
            have "json_string (x # acc) es = Some (t, r)" by simp
            from 2(2) [OF q \<open>c = CHR 0x5C\<close> Cons nu Some this]
            show ?thesis using Cons by simp
          qed
        qed
      qed
    next
      case False
      show ?thesis
      proof (cases "(of_char c :: nat) < 32")
        case True
        with 2(4) q False show ?thesis by simp
      next
        case ge: False
        with 2(4) q False have "json_string (c # acc) cs = Some (t, r)" by simp
        from 2(3) [OF q False ge this] show ?thesis by simp
      qed
    qed
  qed
qed


lemma number_int_shorter: "number_int s = Some (t, r) \<Longrightarrow> length r < length s"
proof (cases s)
  case Nil
  assume "number_int s = Some (t, r)"
  with Nil show ?thesis by (simp add: number_int_def)
next
  case (Cons c cs)
  assume "number_int s = Some (t, r)"
  with Cons have "r = cs \<or> r = dropWhile is_digit cs"
    by (simp add: number_int_def split: if_splits)
  then have "length r \<le> length cs" using length_dropWhile_le [of is_digit cs] by auto
  with Cons show ?thesis by simp
qed

lemma number_digits1_shorter: "number_digits1 s = Some (t, r) \<Longrightarrow> length r < length s"
proof (cases s)
  case Nil
  assume "number_digits1 s = Some (t, r)"
  with Nil show ?thesis by (simp add: number_digits1_def)
next
  case (Cons c cs)
  assume "number_digits1 s = Some (t, r)"
  with Cons have "r = dropWhile is_digit cs"
    by (simp add: number_digits1_def split: if_splits)
  then have "length r \<le> length cs" using length_dropWhile_le [of is_digit cs] by auto
  with Cons show ?thesis by simp
qed

lemma number_frac_shorter:
  assumes "number_frac s = Some (t, r)"
  shows "length r \<le> length s"
proof -
  consider "r = s" | c d cs where "s = c # d # cs" "r = dropWhile is_digit cs"
    using assms by (auto simp: number_frac_def split: list.splits if_splits)
  then show ?thesis
  proof cases
    case 1
    then show ?thesis by simp
  next
    case 2
    then show ?thesis using length_dropWhile_le [of is_digit cs] by simp
  qed
qed


lemma number_exp_shorter:
  assumes "number_exp s = Some (t, r)"
  shows "length r \<le> length s"
proof (cases s)
  case Nil
  with assms show ?thesis by (simp add: number_exp_def)
next
  case (Cons c cs)
  show ?thesis
  proof (cases "c = CHR ''e'' \<or> c = CHR ''E''")
    case False
    with assms Cons show ?thesis by (simp add: number_exp_def)
  next
    case e: True
    show ?thesis
    proof (cases cs)
      case Nil
      with assms Cons e show ?thesis by (simp add: number_exp_def)
    next
      case c2: (Cons g ds)
      show ?thesis
      proof (cases "g = CHR ''+'' \<or> g = CHR ''-''")
        case True
        with assms Cons e c2 obtain t' where "number_digits1 ds = Some (t', r)"
          by (auto simp: number_exp_def)
        from number_digits1_shorter [OF this] Cons c2 show ?thesis by simp
      next
        case False
        with assms Cons e c2 obtain t' where "number_digits1 cs = Some (t', r)"
          by (auto simp: number_exp_def)
        from number_digits1_shorter [OF this] Cons show ?thesis by simp
      qed
    qed
  qed
qed

lemma json_number_shorter:
  assumes "json_number s = Some (t, r)"
  shows "length r < length s"
proof -
  define s1 where "s1 = (case s of c # cs \<Rightarrow> if c = CHR ''-'' then cs else s | [] \<Rightarrow> s)"
  have s1: "length s1 \<le> length s" by (simp add: s1_def split: list.splits)
  from assms obtain i s2 f s3 e where
    "number_int s1 = Some (i, s2)" "number_frac s2 = Some (f, s3)" "number_exp s3 = Some (e, r)"
    by (auto simp: json_number_def s1_def split: list.splits if_splits option.splits)
  with s1 number_int_shorter [of s1 i s2] number_frac_shorter [of s2 f s3]
    number_exp_shorter [of s3 e r]
  show ?thesis by simp
qed


lemma json_value_shorter_all:
  "\<forall>v r. json_value s = Some (v, r) \<longrightarrow> length r < length s"
  "\<forall>v r. json_elements acc s' = Some (v, r) \<longrightarrow> length r < length s'"
  "\<forall>v r. json_members macc s'' = Some (v, r) \<longrightarrow> length r < length s''"
proof (induction s and acc s' and macc s'' rule: json_value_json_elements_json_members.induct)
  case (1 s)
  show ?case
  proof (intro allI impI)
    fix v r
    assume h: "json_value s = Some (v, r)"
    then obtain c cs where sk: "skip_ws s = c # cs"
      by (cases "skip_ws s") (simp_all add: json_value.simps [of s])
    have cs: "length cs < length s" using sk by (rule skip_ws_Cons_shorter)
    have le: "length (c # cs) \<le> length s" using cs by simp
    show "length r < length s"
    proof (cases "c = CHR ''{''")
      case True
      from h sk True obtain d ds where sk2: "skip_ws cs = d # ds"
        by (cases "skip_ws cs") (simp_all add: json_value.simps [of s])
      have ds: "length ds < length cs" using sk2 by (rule skip_ws_Cons_shorter)
      show ?thesis
      proof (cases "d = CHR ''}''")
        case d: True
        with h sk True sk2 have "r = ds" by (simp add: json_value.simps [of s])
        with ds cs show ?thesis by simp
      next
        case d: False
        with h sk True sk2 have "json_members [] cs = Some (v, r)"
          by (simp add: json_value.simps [of s])
        with "1.IH"(1) [OF sk True sk2 d] have "length r < length cs" by blast
        with cs show ?thesis by simp
      qed
    next
      case nb: False
      show ?thesis
      proof (cases "c = CHR ''[''")
        case True
        from h sk nb True obtain d ds where sk2: "skip_ws cs = d # ds"
          by (cases "skip_ws cs") (simp_all add: json_value.simps [of s])
        have ds: "length ds < length cs" using sk2 by (rule skip_ws_Cons_shorter)
        show ?thesis
        proof (cases "d = CHR '']''")
          case d: True
          with h sk nb True sk2 have "r = ds" by (simp add: json_value.simps [of s])
          with ds cs show ?thesis by simp
        next
          case d: False
          with h sk nb True sk2 have "json_elements [] cs = Some (v, r)"
            by (simp add: json_value.simps [of s])
          with "1.IH"(2) [OF sk nb True sk2 d] have "length r < length cs" by blast
          with cs show ?thesis by simp
        qed
      next
        case nk: False
        show ?thesis
        proof (cases "c = CHR 0x22")
          case True
          with h sk nb nk obtain t where "json_string [] cs = Some (t, r)"
            by (auto simp: json_value.simps [of s])
          from json_string_shorter [OF this] cs show ?thesis by simp
        next
          case nq: False
          from h sk nb nk nq consider
              "r = drop 4 (c # cs)" | "r = drop 5 (c # cs)"
            | t where "json_number (c # cs) = Some (t, r)"
            by (auto simp: json_value.simps [of s] split: if_splits)
          then show ?thesis
          proof cases
            case 1
            with le show ?thesis by simp
          next
            case 2
            with le show ?thesis by simp
          next
            case 3
            from json_number_shorter [OF this] le show ?thesis by simp
          qed
        qed
      qed
    qed
  qed
next
  case (2 acc s)
  show ?case
  proof (intro allI impI)
    fix v r
    assume h: "json_elements acc s = Some (v, r)"
    then obtain v0 r0 where jv: "json_value s = Some (v0, r0)"
      by (cases "json_value s") (auto simp: json_elements.simps [of acc s])
    from h jv have g: "length r0 < length s"
      by (simp add: json_elements.simps [of acc s] split: if_splits)
    from h jv g obtain d ds where sk: "skip_ws r0 = d # ds"
      by (cases "skip_ws r0") (simp_all add: json_elements.simps [of acc s])
    have ds: "length ds < length r0" using sk by (rule skip_ws_Cons_shorter)
    show "length r < length s"
    proof (cases "d = CHR '',''")
      case True
      with h jv g sk have "json_elements (v0 # acc) ds = Some (v, r)"
        by (simp add: json_elements.simps [of acc s])
      with "2.IH"(2) [OF jv refl g sk True] have "length r < length ds" by blast
      with ds g show ?thesis by simp
    next
      case False
      with h jv g sk have "r = ds"
        by (simp add: json_elements.simps [of acc s] split: if_splits)
      with ds g show ?thesis by simp
    qed
  qed
next
  case (3 macc s)
  show ?case
  proof (intro allI impI)
    fix v r
    assume h: "json_members macc s = Some (v, r)"
    then obtain q ks where sk: "skip_ws s = q # ks"
      by (cases "skip_ws s") (simp_all add: json_members.simps [of macc s])
    from h sk have q: "q = CHR 0x22"
      by (simp add: json_members.simps [of macc s] split: if_splits)
    from h sk q obtain k r0 where js: "json_string [] ks = Some (k, r0)"
      by (cases "json_string [] ks") (auto simp: json_members.simps [of macc s])
    from h sk q js obtain colon vs where sk2: "skip_ws r0 = colon # vs"
      by (cases "skip_ws r0") (simp_all add: json_members.simps [of macc s])
    from h sk q js sk2 have g1: "colon = CHR '':'' \<and> length vs < length s"
      by (simp add: json_members.simps [of macc s] split: if_splits)
    from h sk q js sk2 g1 obtain v0 r1 where jv: "json_value vs = Some (v0, r1)"
      by (cases "json_value vs") (auto simp: json_members.simps [of macc s])
    from h sk q js sk2 g1 jv have g2: "length r1 < length s"
      by (simp add: json_members.simps [of macc s] split: if_splits)
    from h sk q js sk2 g1 jv g2 obtain d ds where sk3: "skip_ws r1 = d # ds"
      by (cases "skip_ws r1") (simp_all add: json_members.simps [of macc s])
    have ds: "length ds < length r1" using sk3 by (rule skip_ws_Cons_shorter)
    show "length r < length s"
    proof (cases "d = CHR '',''")
      case True
      with h sk q js sk2 g1 jv g2 sk3 have "json_members ((k, v0) # macc) ds = Some (v, r)"
        by (simp add: json_members.simps [of macc s])
      with "3.IH"(2) [OF sk q js refl sk2 g1 jv refl g2 sk3 True] have "length r < length ds"
        by blast
      with ds g2 show ?thesis by simp
    next
      case False
      with h sk q js sk2 g1 jv g2 sk3 have "r = ds"
        by (simp add: json_members.simps [of macc s] split: if_splits)
      with ds g2 show ?thesis by simp
    qed
  qed
qed


lemma json_value_shorter: "json_value s = Some (v, r) \<Longrightarrow> length r < length s"
  using json_value_shorter_all(1) [of s] by blast

lemma json_elements_unguarded:
  "json_elements acc s =
     (case json_value s of
        None \<Rightarrow> None
      | Some (v, r) \<Rightarrow>
          (case skip_ws r of
             [] \<Rightarrow> None
           | d # ds \<Rightarrow>
               if d = CHR '','' then json_elements (v # acc) ds
               else if d = CHR '']'' then Some (JArr (rev (v # acc)), ds)
               else None))"
proof (cases "json_value s")
  case None
  then show ?thesis by (simp add: json_elements.simps [of acc s])
next
  case (Some a)
  obtain v r where a: "a = (v, r)" by (cases a)
  from Some a have "length r < length s" by (simp add: json_value_shorter)
  with Some a show ?thesis by (simp add: json_elements.simps [of acc s])
qed

lemma json_members_unguarded:
  "json_members acc s =
     (case skip_ws s of
        [] \<Rightarrow> None
      | q # ks \<Rightarrow>
          if q = CHR 0x22 then
            (case json_string [] ks of
               None \<Rightarrow> None
             | Some (k, r0) \<Rightarrow>
                 (case skip_ws r0 of
                    [] \<Rightarrow> None
                  | colon # vs \<Rightarrow>
                      if colon = CHR '':'' then
                        (case json_value vs of
                           None \<Rightarrow> None
                         | Some (v, r) \<Rightarrow>
                             (case skip_ws r of
                                [] \<Rightarrow> None
                              | d # ds \<Rightarrow>
                                  if d = CHR '','' then json_members ((k, v) # acc) ds
                                  else if d = CHR ''}'' then Some (JObj (rev ((k, v) # acc)), ds)
                                  else None))
                      else None))
          else None)"
proof -
  have g1: "length vs < length s"
    if "skip_ws s = q # ks" "json_string [] ks = Some (k, r0)" "skip_ws r0 = colon # vs"
    for q ks k r0 colon vs
    using skip_ws_Cons_shorter [OF that(1)] json_string_shorter [OF that(2)]
      skip_ws_Cons_shorter [OF that(3)]
    by simp
  have g2: "length r < length s"
    if "skip_ws s = q # ks" "json_string [] ks = Some (k, r0)" "skip_ws r0 = colon # vs"
      "json_value vs = Some (v, r)"
    for q ks k r0 colon vs v r
    using g1 [OF that(1,2,3)] json_value_shorter [OF that(4)] by simp
  show ?thesis
    by (subst json_members.simps)
      (auto split: list.splits option.splits prod.splits simp: g1 g2)
qed

section \<open>The parser\<close>

text \<open>What the parser accepts, what it rejects, and the one error it can raise.\<close>

lemma parse_accepts:
  assumes "JSON_parse (strip_fence responseText) = Some parsed"
    and "get_prop parsed ''title'' = Some (JStr t)"
    and "get_prop parsed ''content'' = Some (JStr c)"
  shows "parseGeminiJsonResponse responseText =
           Inr \<lparr>title = t, content = c, imagePrompt = get_prop parsed ''imagePrompt''\<rparr>"
proof -
  from assms(2) have "parsed \<noteq> JNull" by auto
  with assms show ?thesis
    by (simp add: parseGeminiJsonResponse_def parse_try_def)
qed

lemma parse_rejects:
  assumes "JSON_parse (strip_fence responseText) = Some parsed"
    and "(\<forall>t. get_prop parsed ''title'' \<noteq> Some (JStr t)) \<or>
         (\<forall>c. get_prop parsed ''content'' \<noteq> Some (JStr c))"
  shows "parseGeminiJsonResponse responseText = Inl parse_failure"
  using assms
  by (auto simp: parseGeminiJsonResponse_def parse_try_def parse_failure_def
      split: option.splits json.splits sum.splits)

lemma parse_failure_only:
  "parseGeminiJsonResponse responseText = Inl e \<Longrightarrow> e = parse_failure"
  by (auto simp: parseGeminiJsonResponse_def parse_failure_def split: sum.splits)

lemma parse_result_fields:
  assumes "parseGeminiJsonResponse responseText = Inr b"
  shows "\<exists>parsed. JSON_parse (strip_fence responseText) = Some parsed \<and>
           get_prop parsed ''title'' = Some (JStr (title b)) \<and>
           get_prop parsed ''content'' = Some (JStr (content b)) \<and>
           imagePrompt b = get_prop parsed ''imagePrompt''"
  using assms
  by (auto simp: parseGeminiJsonResponse_def parse_try_def
      split: option.splits json.splits sum.splits if_splits)

lemma generated_fields:
  assumes "generateBlogPostContent up t = (Inr data, calls)"
  shows "\<exists>payload b. generateContent up (content_prompt t) = Inr payload \<and>
           parseGeminiJsonResponse payload = Inr b \<and>
           BlogPostContent.title data = title b \<and> BlogPostContent.content data = content b"
  using assms
  by (auto simp: generateBlogPostContent_def spread_def Let_def
      split: sum.splits if_splits prod.splits)

lemma parse_example_payload:
  "parseGeminiJsonResponse example_payload =
     Inr \<lparr>title = ''T'', content = ''C'', imagePrompt = Some (JStr ''P'')\<rparr>"
  by code_simp

lemma parse_blank_payload:
  \<open>parseGeminiJsonResponse ''{"title":"","content":""}'' =
     Inr \<lparr>title = [], content = [], imagePrompt = None\<rparr>\<close>
  by code_simp

lemma blank_generated:
  "generateBlogPostContent blank_upstream ''x'' =
     (Inr \<lparr>title = [], content = [], imagePrompt = None, imageUrl = None\<rparr>,
      [GenerateContent (content_prompt ''x'')])"
  by code_simp

text \<open>
  C1. The payload \<^verbatim>\<open>{"title":"T"}\<close> is valid JSON without a \<^verbatim>\<open>content\<close> field. The
  \<^verbatim>\<open>try\<close> block throws the structural error for it, the \<^verbatim>\<open>catch\<close> block of the same
  function catches that throw, and what the parser raises is the error for text that is not
  valid JSON. (A payload with both fields as strings is returned with exactly these
  values: lemma \<open>parse_accepts\<close>.)
\<close>

theorem missing_content_raises_parse_failure:
  \<open>JSON_parse ''{"title":"T"}'' = Some (JObj [(''title'', JStr ''T'')]) \<and>
   parse_try (strip_fence ''{"title":"T"}'') = Inl (Thrown structure_failure) \<and>
   parseGeminiJsonResponse ''{"title":"T"}'' = Inl parse_failure \<and>
   parse_failure \<noteq> structure_failure\<close>
  by code_simp

text \<open>
  C2. The malformed text \<^verbatim>\<open>{\<close> and the valid JSON \<^verbatim>\<open>{}\<close>, which has neither field,
  make the parser raise one and the same error: the two failure modes cannot be told apart.
\<close>

theorem malformed_and_incomplete_raise_same_error:
  \<open>JSON_parse ''{'' = None \<and> JSON_parse ''{}'' = Some (JObj []) \<and>
   parseGeminiJsonResponse ''{'' = Inl parse_failure \<and>
   parseGeminiJsonResponse ''{}'' = parseGeminiJsonResponse ''{''\<close>
  by code_simp

text \<open>
  C3, as stated, fails: a payload whose title and content are the empty string is
  accepted.
\<close>

theorem empty_title_and_content_accepted:
  \<open>parseGeminiJsonResponse ''{"title":"","content":""}'' =
     Inr \<lparr>title = [], content = [], imagePrompt = None\<rparr>\<close>
  by code_simp

text \<open>
  C3, amended. A result is produced only if the text that is parsed is JSON whose
  \<^verbatim>\<open>title\<close> and \<^verbatim>\<open>content\<close> are strings, empty or not, and the result carries these two
  strings; the Post built from a generation result has as its title and body the two
  strings of the payload that the text call returned.
\<close>

theorem result_fields_are_the_payload_strings:
  "(parseGeminiJsonResponse responseText = Inr b \<longrightarrow>
      (\<exists>parsed. JSON_parse (strip_fence responseText) = Some parsed \<and>
         get_prop parsed ''title'' = Some (JStr (title b)) \<and>
         get_prop parsed ''content'' = Some (JStr (content b)))) \<and>
   (generateBlogPostContent up t = (Inr data, calls) \<longrightarrow>
      (\<exists>payload c. generateContent up (content_prompt t) = Inr payload \<and>
         parseGeminiJsonResponse payload = Inr c \<and>
         BlogPost.title (hd (posts (handleGeneratePost_settle now today (Inr data) s))) = title c \<and>
         BlogPost.content (hd (posts (handleGeneratePost_settle now today (Inr data) s))) = content c))"
proof (intro conjI impI)
  assume "parseGeminiJsonResponse responseText = Inr b"
  from parse_result_fields [OF this]
  show "\<exists>parsed. JSON_parse (strip_fence responseText) = Some parsed \<and>
         get_prop parsed ''title'' = Some (JStr (title b)) \<and>
         get_prop parsed ''content'' = Some (JStr (content b))"
    by blast
next
  assume "generateBlogPostContent up t = (Inr data, calls)"
  from generated_fields [OF this] obtain payload c where
    "generateContent up (content_prompt t) = Inr payload" "parseGeminiJsonResponse payload = Inr c"
    "BlogPostContent.title data = title c" "BlogPostContent.content data = content c"
    by blast
  then show "\<exists>payload c. generateContent up (content_prompt t) = Inr payload \<and>
         parseGeminiJsonResponse payload = Inr c \<and>
         BlogPost.title (hd (posts (handleGeneratePost_settle now today (Inr data) s))) = title c \<and>
         BlogPost.content (hd (posts (handleGeneratePost_settle now today (Inr data) s))) = content c"
    by (auto simp: handleGeneratePost_settle_def)
qed

theorem result_fields_are_the_payload_strings_witness:
  \<open>parseGeminiJsonResponse ''{"title":"","content":""}'' =
     Inr \<lparr>title = [], content = [], imagePrompt = None\<rparr> \<and>
   (\<exists>parsed. JSON_parse (strip_fence ''{"title":"","content":""}'') = Some parsed \<and>
      get_prop parsed ''title'' = Some (JStr []) \<and> get_prop parsed ''content'' = Some (JStr [])) \<and>
   generateBlogPostContent blank_upstream ''x'' =
     (Inr \<lparr>title = [], content = [], imagePrompt = None, imageUrl = None\<rparr>,
      [GenerateContent (content_prompt ''x'')]) \<and>
   (\<exists>payload c. generateContent blank_upstream (content_prompt ''x'') = Inr payload \<and>
      parseGeminiJsonResponse payload = Inr c \<and>
      BlogPost.title (hd (posts (handleGeneratePost_settle 1730505600000 ''November 2, 2026''
        (Inr \<lparr>title = [], content = [], imagePrompt = None, imageUrl = None\<rparr>) example_state))) = title c \<and>
      BlogPost.content (hd (posts (handleGeneratePost_settle 1730505600000 ''November 2, 2026''
        (Inr \<lparr>title = [], content = [], imagePrompt = None, imageUrl = None\<rparr>) example_state))) = content c)\<close>
  using result_fields_are_the_payload_strings
      [of \<open>''{"title":"","content":""}''\<close> "\<lparr>title = [], content = [], imagePrompt = None\<rparr>"
        blank_upstream "''x''" "\<lparr>title = [], content = [], imagePrompt = None, imageUrl = None\<rparr>"
        "[GenerateContent (content_prompt ''x'')]" 1730505600000 "''November 2, 2026''" example_state]
    parse_blank_payload blank_generated
  by simp

section \<open>The image generator\<close>

lemma generateImage_failure:
  assumes "truthy prompt" and "image_failure (generateImages up prompt)"
  shows "generateImage up prompt =
           (if auth_failure (generateImages up prompt) then Inl image_key_failure else Inr None,
            [GenerateImages prompt])"
  using assms
  by (auto simp: generateImage_def image_failure_def auth_failure_def is_auth_error_def
      image_key_failure_def split: sum.splits thrown.splits option.splits)

lemma content_catch_image_key_failure:
  "content_catch image_key_failure =
     Error ''Gemini API error: Invalid API Key for image generation. Please ensure your Gemini API key is correctly configured.''"
  by code_simp

lemma content_catch_is_Error: "\<exists>message. content_catch e = Error message"
  by (cases e) auto

lemma generateBlogPostContent_throws_Error:
  assumes "generateBlogPostContent up t = (Inl e, calls)"
  shows "\<exists>message. e = Error message"
  using assms content_catch_is_Error
  by (auto simp: generateBlogPostContent_def Let_def split: sum.splits if_splits prod.splits)

lemma is_auth_error_key: "is_auth_error (Error ''API key not valid. Please pass a valid API key.'')"
  by code_simp

lemma trim_example_topic: "trim ''The Future of AI'' \<noteq> []"
  by code_simp

text \<open>
  C4, as stated, fails: a prompt of one space is white space only, and it is sent
  upstream; here the call succeeds and an image comes back.
\<close>

theorem blank_prompt_is_sent_upstream:
  "trim '' '' = [] \<and>
   generateImage example_upstream (Some (JStr '' '')) =
     (Inr (Some ''data:image/jpeg;base64,XYZ''), [GenerateImages (Some (JStr '' ''))])"
  by code_simp

text \<open>
  C4, amended. For the empty prompt string the Image Generator returns "no image" and
  makes no upstream call; every other prompt string, one of white space included, is sent
  upstream, once.
\<close>

theorem empty_prompt_makes_no_call:
  "generateImage up (Some (JStr [])) = (Inr None, []) \<and>
   (p \<noteq> [] \<longrightarrow> snd (generateImage up (Some (JStr p))) = [GenerateImages (Some (JStr p))])"
  by (auto simp: generateImage_def split: sum.splits thrown.splits option.splits)

theorem empty_prompt_makes_no_call_witness:
  "generateImage example_upstream (Some (JStr [])) = (Inr None, []) \<and>
   '' '' \<noteq> [] \<and>
   snd (generateImage example_upstream (Some (JStr '' ''))) = [GenerateImages (Some (JStr '' ''))]"
  using empty_prompt_makes_no_call [of example_upstream "'' ''"] by simp

text \<open>
  C5. Take a submission whose text call returned a payload that the parser accepts and
  that has a truthy image prompt, and whose upstream image call failed (it threw, or its
  response has no image bytes). If the failure is not an authentication error, the Image
  Generator returns "no image" and the Post is created, with no image reference and no
  error shown. If it is an authentication error, the Image Generator throws, the throw
  goes through the \<^verbatim>\<open>catch\<close> block that handles the errors of the text call, and the
  Coordinator shows its message and creates no Post.
\<close>

theorem image_failure_policy:
  assumes "trim (topic s) \<noteq> []" and "\<not> isGenerating s"
    and "generateContent up (content_prompt (topic s)) = Inr payload"
    and "parseGeminiJsonResponse payload = Inr b"
    and "truthy (imagePrompt b)"
    and "image_failure (generateImages up (imagePrompt b))"
  shows "if auth_failure (generateImages up (imagePrompt b))
         then fst (generateImage up (imagePrompt b)) = Inl image_key_failure \<and>
              fst (generateBlogPostContent up (topic s)) = Inl (content_catch image_key_failure) \<and>
              fst (handleGeneratePost up now today s) =
                s\<lparr>error := Some ''Gemini API error: Invalid API Key for image generation. Please ensure your Gemini API key is correctly configured.'',
                  isGenerating := False\<rparr>
         else fst (generateImage up (imagePrompt b)) = Inr None \<and>
              fst (handleGeneratePost up now today s) =
                s\<lparr>posts := \<lparr>id = toString now, title = title b, content = content b,
                             excerpt = take 150 (content b) @ ''...'', date = today,
                             imageUrl = None\<rparr> # posts s,
                  error := None, topic := [], isGenerating := False\<rparr>"
proof -
  note img = generateImage_failure [OF assms(5) assms(6)]
  show ?thesis
  proof (cases "auth_failure (generateImages up (imagePrompt b))")
    case True
    with assms img show ?thesis
      by (simp add: handleGeneratePost_def handleGeneratePost_start_def generateBlogPostContent_def
          handleGeneratePost_settle_def content_catch_image_key_failure)
  next
    case False
    with assms img show ?thesis
      by (simp add: handleGeneratePost_def handleGeneratePost_start_def generateBlogPostContent_def
          handleGeneratePost_settle_def spread_def)
  qed
qed

theorem image_failure_policy_witness:
  "trim (topic example_state) \<noteq> [] \<and> \<not> isGenerating example_state \<and>
   generateContent key_upstream (content_prompt (topic example_state)) = Inr example_payload \<and>
   generateContent imageless_upstream (content_prompt (topic example_state)) = Inr example_payload \<and>
   parseGeminiJsonResponse example_payload =
     Inr \<lparr>title = ''T'', content = ''C'', imagePrompt = Some (JStr ''P'')\<rparr> \<and>
   truthy (Some (JStr ''P'')) \<and>
   image_failure (generateImages key_upstream (Some (JStr ''P''))) \<and>
   auth_failure (generateImages key_upstream (Some (JStr ''P''))) \<and>
   fst (generateImage key_upstream (Some (JStr ''P''))) = Inl image_key_failure \<and>
   fst (handleGeneratePost key_upstream 1730505600000 ''November 2, 2026'' example_state) =
     example_state\<lparr>error := Some ''Gemini API error: Invalid API Key for image generation. Please ensure your Gemini API key is correctly configured.'',
       isGenerating := False\<rparr> \<and>
   image_failure (generateImages imageless_upstream (Some (JStr ''P''))) \<and>
   \<not> auth_failure (generateImages imageless_upstream (Some (JStr ''P''))) \<and>
   fst (generateImage imageless_upstream (Some (JStr ''P''))) = Inr None \<and>
   fst (handleGeneratePost imageless_upstream 1730505600000 ''November 2, 2026'' example_state) =
     example_state\<lparr>posts := [\<lparr>id = toString 1730505600000, title = ''T'', content = ''C'',
                                excerpt = ''C...'', date = ''November 2, 2026'', imageUrl = None\<rparr>],
       error := None, topic := [], isGenerating := False\<rparr>"
  using image_failure_policy [of example_state key_upstream example_payload
      "\<lparr>title = ''T'', content = ''C'', imagePrompt = Some (JStr ''P'')\<rparr>"
      1730505600000 "''November 2, 2026''"]
    image_failure_policy [of example_state imageless_upstream example_payload
      "\<lparr>title = ''T'', content = ''C'', imagePrompt = Some (JStr ''P'')\<rparr>"
      1730505600000 "''November 2, 2026''"]
    trim_example_topic parse_example_payload is_auth_error_key
  by (simp add: example_state_def key_upstream_def imageless_upstream_def image_failure_def
      auth_failure_def image_bytes_def)

section \<open>The coordinator\<close>

lemma down_generated:
  "generateBlogPostContent down_upstream ''The Future of AI'' =
     (Inl (Error ''Gemini API error: fetch failed''),
      [GenerateContent (content_prompt ''The Future of AI'')])"
  by code_simp

lemma image_bytes_example: "image_bytes example_response = Some ''XYZ''"
  by (simp add: image_bytes_def example_response_def)

text \<open>
  C7. While a generation is in flight, a submission stops at the guard: it changes nothing
  in the state, requests nothing, and the whole handler makes no upstream call. When the
  generation that is in flight settles, with a result or with an error, the flag is
  cleared.
\<close>

theorem second_submission_is_a_noop:
  "isGenerating s \<Longrightarrow>
     handleGeneratePost_start s = (s, None) \<and>
     handleGeneratePost up now today s = (s, []) \<and>
     \<not> isGenerating (handleGeneratePost_settle now' today' outcome s)"
  by (auto simp: handleGeneratePost_start_def handleGeneratePost_def handleGeneratePost_settle_def
      split: sum.splits thrown.splits)

theorem second_submission_is_a_noop_witness:
  "isGenerating (example_state\<lparr>isGenerating := True\<rparr>) \<and>
   handleGeneratePost_start (example_state\<lparr>isGenerating := True\<rparr>) =
     (example_state\<lparr>isGenerating := True\<rparr>, None) \<and>
   handleGeneratePost example_upstream 1730505600000 ''November 2, 2026''
       (example_state\<lparr>isGenerating := True\<rparr>) =
     (example_state\<lparr>isGenerating := True\<rparr>, []) \<and>
   \<not> isGenerating (handleGeneratePost_settle 1730505600000 ''November 2, 2026'' (Inl NonError)
         (example_state\<lparr>isGenerating := True\<rparr>))"
  using second_submission_is_a_noop [of "example_state\<lparr>isGenerating := True\<rparr>" example_upstream
      1730505600000 "''November 2, 2026''" 1730505600000 "''November 2, 2026''" "Inl NonError"]
  by simp

text \<open>
  C8. When the generation for a submitted topic fails, what was thrown is an
  \<^verbatim>\<open>Error\<close>; its message becomes the error of the state, the post list is the one from
  before the submission, and the in-flight flag is cleared. Whatever the state is when the
  failure arrives, only the error and the flag are written.
\<close>

theorem failure_shows_message_and_keeps_posts:
  assumes "trim (topic s) \<noteq> []" and "\<not> isGenerating s"
    and "generateBlogPostContent up (topic s) = (Inl e, calls)"
  shows "\<exists>message. e = Error message \<and>
           error (fst (handleGeneratePost up now today s)) = Some message \<and>
           posts (fst (handleGeneratePost up now today s)) = posts s \<and>
           \<not> isGenerating (fst (handleGeneratePost up now today s)) \<and>
           (\<forall>s'. handleGeneratePost_settle now today (Inl e) s' =
                   s'\<lparr>error := Some message, isGenerating := False\<rparr>)"
proof -
  from generateBlogPostContent_throws_Error [OF assms(3)]
  obtain message where "e = Error message" by blast
  with assms show ?thesis
    by (simp add: handleGeneratePost_def handleGeneratePost_start_def handleGeneratePost_settle_def)
qed

theorem failure_shows_message_and_keeps_posts_witness:
  "trim (topic example_state) \<noteq> [] \<and> \<not> isGenerating example_state \<and>
   generateBlogPostContent down_upstream (topic example_state) =
     (Inl (Error ''Gemini API error: fetch failed''),
      [GenerateContent (content_prompt ''The Future of AI'')]) \<and>
   error (fst (handleGeneratePost down_upstream 1730505600000 ''November 2, 2026'' example_state)) =
     Some ''Gemini API error: fetch failed'' \<and>
   posts (fst (handleGeneratePost down_upstream 1730505600000 ''November 2, 2026'' example_state)) =
     posts example_state \<and>
   \<not> isGenerating (fst (handleGeneratePost down_upstream 1730505600000 ''November 2, 2026'' example_state))"
  using failure_shows_message_and_keeps_posts [of example_state down_upstream
      "Error ''Gemini API error: fetch failed''"
      "[GenerateContent (content_prompt ''The Future of AI'')]" 1730505600000 "''November 2, 2026''"]
    trim_example_topic down_generated
  by (simp add: example_state_def)

text \<open>
  C9. The topic is "The Future of AI", the text call returns
  \<^verbatim>\<open>{"title":"T","content":"C","imagePrompt":"P"}\<close>, and the image call for the prompt
  "P" returns the bytes \<^verbatim>\<open>XYZ\<close>. The Post that is put in front of the list has title "T",
  body "C", excerpt "C..." and the image reference \<^verbatim>\<open>data:image/jpeg;base64,XYZ\<close>.
\<close>

theorem future_of_ai_post:
  assumes "topic s = ''The Future of AI''" and "\<not> isGenerating s"
    and "generateContent up (content_prompt ''The Future of AI'') = Inr example_payload"
    and "generateImages up (Some (JStr ''P'')) = Inr example_response"
  shows "posts (fst (handleGeneratePost up now today s)) =
           \<lparr>id = toString now, title = ''T'', content = ''C'', excerpt = ''C...'', date = today,
             imageUrl = Some ''data:image/jpeg;base64,XYZ''\<rparr> # posts s"
  using assms trim_example_topic
  by (simp add: handleGeneratePost_def handleGeneratePost_start_def generateBlogPostContent_def
      parse_example_payload generateImage_def image_bytes_example handleGeneratePost_settle_def
      spread_def)

theorem future_of_ai_post_witness:
  "topic example_state = ''The Future of AI'' \<and> \<not> isGenerating example_state \<and>
   generateContent example_upstream (content_prompt ''The Future of AI'') = Inr example_payload \<and>
   generateImages example_upstream (Some (JStr ''P'')) = Inr example_response \<and>
   posts (fst (handleGeneratePost example_upstream 1730505600000 ''November 2, 2026'' example_state)) =
     [\<lparr>id = toString 1730505600000, title = ''T'', content = ''C'', excerpt = ''C...'',
       date = ''November 2, 2026'', imageUrl = Some ''data:image/jpeg;base64,XYZ''\<rparr>]"
  using future_of_ai_post [of example_state example_upstream 1730505600000 "''November 2, 2026''"]
  by (simp add: example_state_def example_upstream_def)

text \<open>
  C10. A generation that settles with an error leaves the topic as it is, one that settles
  with a result sets it to the empty string; so after a submission the topic is empty
  exactly when the submission passed the guard and its generation succeeded, and is the
  topic from before otherwise.
\<close>

theorem topic_cleared_on_success_only:
  "topic (handleGeneratePost_settle now today (Inl e) s) = topic s \<and>
   topic (handleGeneratePost_settle now today (Inr data) s) = [] \<and>
   topic (fst (handleGeneratePost up now today s)) =
     (if trim (topic s) \<noteq> [] \<and> \<not> isGenerating s \<and>
         \<not> isl (fst (generateBlogPostContent up (topic s)))
      then [] else topic s)"
  by (auto simp: handleGeneratePost_def handleGeneratePost_start_def handleGeneratePost_settle_def
      split: sum.splits thrown.splits prod.splits)

section \<open>Fenced payloads\<close>

text \<open>
  The fence pattern on a fenced payload: the greedy star takes the white space that
  follows the tag, the lazy group stops at the last character that is not white space, so
  group 1 is the trimmed payload.
\<close>

lemma is_space_newline: "is_space CHR ''\<newline>''"
  by (simp add: is_space_def)

lemma is_space_not_backtick: "is_space c \<Longrightarrow> c \<noteq> CHR ''`''"
  by (auto simp: is_space_def)

lemma rx_match_Lit_Eos: "rx_match [Lit l, Eos] s cap = (if s = l then Some cap else None)"
  by (auto simp: prefix_def)

lemma star_tail:
  "rx_match [Star is_space, Lit ''```'', Eos] s cap =
     (if dropWhile is_space s = ''```'' then Some cap else None)"
proof (induction s)
  case Nil
  show ?case by simp
next
  case (Cons c s)
  show ?case
  proof (cases "is_space c")
    case True
    then have "c \<noteq> CHR ''`''" by (rule is_space_not_backtick)
    with True Cons show ?thesis by simp
  next
    case False
    then show ?thesis by (simp add: rx_match_Lit_Eos del: rx_match.simps(2,7))
  qed
qed

lemma opt_tail:
  "rx_match [Opt ''\<newline>'', Star is_space, Lit ''```'', Eos] s cap =
     (if dropWhile is_space s = ''```'' then Some cap else None)"
proof (cases "prefix ''\<newline>'' s")
  case True
  then obtain s' where s: "s = CHR ''\<newline>'' # s'" by (auto simp: prefix_def)
  show ?thesis by (simp add: s star_tail is_space_newline del: rx_match.simps(5))
next
  case False
  then show ?thesis by (simp add: star_tail del: rx_match.simps(4,5))
qed

lemma tail_fails:
  assumes "c \<noteq> []" and "\<not> is_space (last c)" and "dropWhile is_space r = ''```''"
  shows "dropWhile is_space (c @ r) \<noteq> ''```''"
proof -
  have "last c \<in> set c" using assms(1) by simp
  then have 1: "dropWhile is_space (c @ r) = dropWhile is_space c @ r"
    using assms(2) by (rule dropWhile_append1)
  have "dropWhile is_space c \<noteq> []"
    using \<open>last c \<in> set c\<close> assms(2) by (auto simp: dropWhile_eq_Nil_conv)
  then have 2: "1 \<le> length (dropWhile is_space c)" by (cases "dropWhile is_space c") auto
  have "length (dropWhile is_space r) \<le> length r" by (rule length_dropWhile_le)
  with assms(3) have 3: "3 \<le> length r" by simp
  from 1 2 3 have "4 \<le> length (dropWhile is_space (c @ r))" by simp
  then show ?thesis by auto
qed

lemma lazy_capture:
  assumes "c = [] \<or> \<not> is_space (last c)" and "dropWhile is_space r = ''```''"
  shows "rx_match [LazyGroup (\<lambda>c. True) acc, Opt ''\<newline>'', Star is_space, Lit ''```'', Eos] (c @ r) cap =
           Some (acc @ c)"
  using assms(1)
proof (induction c arbitrary: acc)
  case Nil
  show ?case using assms(2) by (simp add: opt_tail del: rx_match.simps(3))
next
  case (Cons x c)
  then have last: "\<not> is_space (last (x # c))" by simp
  have "dropWhile is_space ((x # c) @ r) \<noteq> ''```''"
    by (rule tail_fails [OF _ last assms(2)]) simp
  then have fail: "rx_match [Opt ''\<newline>'', Star is_space, Lit ''```'', Eos] (x # c @ r) acc = None"
    by (simp add: opt_tail del: rx_match.simps(3))
  have "c = [] \<or> \<not> is_space (last c)" using last by (cases c) auto
  from Cons.IH [OF this, of "acc @ [x]"] fail show ?case
    by (simp del: rx_match.simps(3))
qed

lemma star_greedy:
  assumes "\<forall>x\<in>set w. is_space x" and "s = [] \<or> \<not> is_space (hd s)"
    and "rx_match rs s cap = Some m"
  shows "rx_match (Star is_space # rs) (w @ s) cap = Some m"
  using assms(1)
proof (induction w)
  case Nil
  show ?case using assms(2,3) by (cases s) auto
next
  case (Cons x w)
  then show ?case by simp
qed


lemma trim_id:
  assumes "s \<noteq> []" and "\<not> is_space (hd s)" and "\<not> is_space (last s)"
  shows "trim s = s"
proof -
  from assms(1,2) have 1: "dropWhile is_space s = s" by (cases s) auto
  from assms(1,3) have 2: "dropWhile is_space (rev s) = rev s"
    by (cases "rev s") (auto simp: last_rev [symmetric] simp del: last_rev)
  show ?thesis by (simp add: trim_def 1 2)
qed

lemma last_dropWhile: "dropWhile P xs \<noteq> [] \<Longrightarrow> last (dropWhile P xs) = last xs"
  by (metis last_appendR takeWhile_dropWhile_id)

lemma trim_ends:
  assumes "trim s \<noteq> []"
  shows "\<not> is_space (hd (trim s))" and "\<not> is_space (last (trim s))"
proof -
  let ?d = "dropWhile is_space s"
  let ?x = "dropWhile is_space (rev ?d)"
  have t: "trim s = rev ?x" by (simp only: trim_def)
  from assms have x: "?x \<noteq> []" unfolding t by (simp only: rev_is_Nil_conv not_False_eq_True)
  have d: "?d \<noteq> []"
  proof
    assume e: "?d = []"
    have "?x = []" unfolding e by simp
    with x show False by contradiction
  qed
  have "last (trim s) = hd ?x" unfolding t by (rule last_rev)
  then show "\<not> is_space (last (trim s))" using hd_dropWhile [OF x] by simp
  have "hd (trim s) = last ?x" unfolding t by (rule hd_rev)
  also have "\<dots> = last (rev ?d)" using x by (rule last_dropWhile)
  also have "\<dots> = hd ?d" by (rule last_rev)
  finally show "\<not> is_space (hd (trim s))" using hd_dropWhile [OF d] by simp
qed

lemma trim_Nil: "trim [] = []"
  by (simp add: trim_def)

lemma trim_trim: "trim (trim s) = trim s"
proof (cases "trim s = []")
  case True
  show ?thesis unfolding True by (rule trim_Nil)
next
  case False
  show ?thesis using False trim_ends [OF False] by (rule trim_id)
qed

lemma trim_split:
  "dropWhile is_space s = trim s @ rev (takeWhile is_space (rev (dropWhile is_space s)))"
proof -
  let ?d = "dropWhile is_space s"
  have "trim s @ rev (takeWhile is_space (rev ?d)) =
          rev (takeWhile is_space (rev ?d) @ dropWhile is_space (rev ?d))"
    by (simp only: trim_def rev_append)
  also have "\<dots> = rev (rev ?d)" by (simp only: takeWhile_dropWhile_id)
  also have "\<dots> = ?d" by (rule rev_rev_ident)
  finally show ?thesis by (rule sym)
qed

lemma after_tag:
  "rx_match [Star is_space, Opt ''\<newline>'', LazyGroup (\<lambda>c. True) [], Opt ''\<newline>'', Star is_space, Lit ''```'', Eos]
     (''\<newline>'' @ p @ ''\<newline>'' @ ''```'') [] = Some (trim p)"
proof (cases "dropWhile is_space p = []")
  case True
  then have all: "\<forall>x\<in>set p. is_space x" by (simp only: dropWhile_eq_Nil_conv)
  have t: "trim p = []" unfolding trim_def True by simp
  have w: "\<forall>x\<in>set (''\<newline>'' @ p @ ''\<newline>''). is_space x" using all is_space_newline by auto
  have s: "''```'' = [] \<or> \<not> is_space (hd ''```'')" by (simp add: is_space_def)
  have m: "rx_match [Opt ''\<newline>'', LazyGroup (\<lambda>c. True) [], Opt ''\<newline>'', Star is_space, Lit ''```'', Eos]
             ''```'' [] = Some []"
    by (simp add: is_space_def)
  from star_greedy [OF w s m] show ?thesis by (simp add: t)
next
  case False
  let ?l = "takeWhile is_space p"
  let ?d = "dropWhile is_space p"
  let ?t = "rev (takeWhile is_space (rev ?d))"
  let ?r = "?t @ ''\<newline>'' @ ''```''"
  have hd: "\<not> is_space (hd ?d)" by (rule hd_dropWhile [OF False])
  have d: "?d = trim p @ ?t" by (rule trim_split)
  have sp: "\<forall>x\<in>set ?t. is_space x" by (auto dest: set_takeWhileD)
  have ne: "trim p \<noteq> []"
  proof
    assume e: "trim p = []"
    have "?d = ?t" using d unfolding e by (simp only: append_Nil)
    with sp have all: "\<forall>x\<in>set ?d. is_space x" by (simp only:)
    obtain x xs where c: "?d = x # xs" using False by (cases ?d) (simp_all only: not_False_eq_True)
    from all hd show False unfolding c by simp
  qed
  have r: "dropWhile is_space ?r = ''```''"
  proof -
    have "\<forall>x\<in>set (?t @ ''\<newline>''). is_space x" using sp is_space_newline by auto
    then have "dropWhile is_space ((?t @ ''\<newline>'') @ ''```'') = dropWhile is_space ''```''"
      by (intro dropWhile_append2) auto
    then show ?thesis by (simp add: is_space_def)
  qed
  have c: "trim p = [] \<or> \<not> is_space (last (trim p))" using trim_ends(2) [OF ne] by (rule disjI2)
  have s_eq: "?d @ ''\<newline>'' @ ''```'' = trim p @ ?r"
  proof -
    have "?d @ ''\<newline>'' @ ''```'' = (trim p @ ?t) @ ''\<newline>'' @ ''```''" using d by (rule arg_cong)
    then show ?thesis by (simp only: append_assoc)
  qed
  obtain x xs where dc: "?d = x # xs" using False by (cases ?d) (simp_all only: not_False_eq_True)
  have np: "\<not> prefix ''\<newline>'' (?d @ ''\<newline>'' @ ''```'')"
    using hd is_space_newline unfolding dc by auto
  have "rx_match [Opt ''\<newline>'', LazyGroup (\<lambda>c. True) [], Opt ''\<newline>'', Star is_space, Lit ''```'', Eos]
             (?d @ ''\<newline>'' @ ''```'') [] =
        rx_match [LazyGroup (\<lambda>c. True) [], Opt ''\<newline>'', Star is_space, Lit ''```'', Eos]
             (?d @ ''\<newline>'' @ ''```'') []"
    using np by (simp only: rx_match.simps(3) if_False)
  also have "\<dots> = Some (trim p)"
    unfolding s_eq using lazy_capture [OF c r, of "[]" "[]"] by (simp only: append_Nil)
  finally have m: "rx_match [Opt ''\<newline>'', LazyGroup (\<lambda>c. True) [], Opt ''\<newline>'', Star is_space, Lit ''```'', Eos]
             (?d @ ''\<newline>'' @ ''```'') [] = Some (trim p)" .
  have w: "\<forall>x\<in>set (''\<newline>'' @ ?l). is_space x"
    using is_space_newline by (auto dest: set_takeWhileD)
  have s: "?d @ ''\<newline>'' @ ''```'' = [] \<or> \<not> is_space (hd (?d @ ''\<newline>'' @ ''```''))"
    using hd unfolding dc by simp
  have "(''\<newline>'' @ ?l) @ (?d @ ''\<newline>'' @ ''```'') = ''\<newline>'' @ p @ ''\<newline>'' @ ''```''"
    by (metis append_assoc takeWhile_dropWhile_id)
  with star_greedy [OF w s m] show ?thesis by (simp only:)
qed

lemma match_fence_fenced:
  assumes "tag = [] \<or> tag = ''json''"
  shows "match_fence (fenced tag p) = Some (trim p)"
  using assms after_tag [of p]
  by (auto simp: match_fence_def fenceRegex_def fenced_def simp del: rx_match.simps(4,5,6))

lemma match_fence_unfenced: "\<not> prefix ''```'' s \<Longrightarrow> match_fence s = None"
  by (simp add: match_fence_def fenceRegex_def)

lemma trim_fenced: "trim (fenced tag p) = fenced tag p"
  by (rule trim_id) (simp_all add: fenced_def is_space_def)

lemma JSON_parse_Nil: "JSON_parse [] = None"
  by (simp add: JSON_parse_def json_value.simps skip_ws_def)

lemma JSON_parse_backtick: "JSON_parse (CHR ''`'' # s) = None"
  by (simp add: JSON_parse_def json_value.simps skip_ws_def json_ws_def json_number_def
      number_int_def is_digit_def)


text \<open>Parsing what is inside a fence.\<close>

lemma JSON_parse_fence: "prefix ''```'' s \<Longrightarrow> JSON_parse s = None"
  by (auto simp: prefix_def JSON_parse_backtick)

lemma strip_fence_unfenced: "\<not> prefix ''```'' (trim p) \<Longrightarrow> strip_fence p = trim p"
  by (simp add: strip_fence_def match_fence_unfenced)

lemma strip_fence_fenced:
  assumes "tag = [] \<or> tag = ''json''"
  shows "strip_fence (fenced tag p) = (if trim p \<noteq> [] then trim p else fenced tag p)"
  by (simp add: strip_fence_def trim_fenced match_fence_fenced [OF assms] trim_trim)

lemma parse_try_fence: "prefix ''```'' s \<Longrightarrow> parse_try s = Inl SyntaxError"
  by (simp add: parse_try_def JSON_parse_fence)

lemma parse_try_Nil: "parse_try [] = Inl SyntaxError"
  by (simp add: parse_try_def JSON_parse_Nil)

lemma prefix_fenced: "prefix ''```'' (fenced tag p)"
  by (simp add: fenced_def)

lemma parse_fenced_unfenced:
  assumes "tag = [] \<or> tag = ''json''" and "\<not> prefix ''```'' (trim p)"
  shows "parseGeminiJsonResponse (fenced tag p) = parseGeminiJsonResponse p"
proof (cases "trim p = []")
  case True
  have "parse_try (strip_fence (fenced tag p)) = Inl SyntaxError"
    unfolding strip_fence_fenced [OF assms(1)] True using prefix_fenced
    by (simp add: parse_try_fence)
  moreover have "parse_try (strip_fence p) = Inl SyntaxError"
    unfolding strip_fence_unfenced [OF assms(2)] True by (rule parse_try_Nil)
  ultimately show ?thesis by (simp add: parseGeminiJsonResponse_def)
next
  case False
  have "strip_fence (fenced tag p) = strip_fence p"
    unfolding strip_fence_fenced [OF assms(1)] strip_fence_unfenced [OF assms(2)]
    using False by simp
  then show ?thesis by (simp add: parseGeminiJsonResponse_def)
qed

lemma parse_fenced_fenced:
  assumes "tag = [] \<or> tag = ''json''" and "prefix ''```'' (trim p)"
  shows "parseGeminiJsonResponse (fenced tag p) = Inl parse_failure"
proof -
  from assms(2) have "trim p \<noteq> []" by auto
  then have "strip_fence (fenced tag p) = trim p"
    by (simp add: strip_fence_fenced [OF assms(1)])
  with assms(2) have "parse_try (strip_fence (fenced tag p)) = Inl SyntaxError"
    by (simp add: parse_try_fence)
  then show ?thesis by (simp add: parseGeminiJsonResponse_def parse_failure_def)
qed

text \<open>
  C6, as stated, fails: a payload that is itself fenced is accepted, the parser strips one
  fence only, and the same payload inside a second fence is rejected.
\<close>

theorem fenced_twice_is_rejected:
  \<open>parseGeminiJsonResponse ''```{"title":"T","content":"C"}```'' =
     Inr \<lparr>title = ''T'', content = ''C'', imagePrompt = None\<rparr> \<and>
   parseGeminiJsonResponse (fenced ''json'' ''```{"title":"T","content":"C"}```'') =
     Inl parse_failure\<close>
  by code_simp

text \<open>
  C6, amended. For every payload that does not itself begin with a fence (after trimming),
  the payload inside a fenced code block, tagged \<^verbatim>\<open>json\<close> or not, is parsed with the
  same outcome as the payload alone: the same result when it is accepted, the same error
  when it is rejected. And every payload that is rejected alone, one that begins with a
  fence too, is rejected inside a fenced code block.
\<close>

theorem fenced_parses_like_unfenced:
  assumes "tag = [] \<or> tag = ''json''"
  shows "(\<not> prefix ''```'' (trim p) \<longrightarrow>
            parseGeminiJsonResponse (fenced tag p) = parseGeminiJsonResponse p) \<and>
         (isl (parseGeminiJsonResponse p) \<longrightarrow> isl (parseGeminiJsonResponse (fenced tag p)))"
proof (intro conjI impI)
  assume "\<not> prefix ''```'' (trim p)"
  with assms show "parseGeminiJsonResponse (fenced tag p) = parseGeminiJsonResponse p"
    by (rule parse_fenced_unfenced)
next
  assume rejected: "isl (parseGeminiJsonResponse p)"
  show "isl (parseGeminiJsonResponse (fenced tag p))"
  proof (cases "prefix ''```'' (trim p)")
    case True
    with assms have "parseGeminiJsonResponse (fenced tag p) = Inl parse_failure"
      by (rule parse_fenced_fenced)
    then show ?thesis by simp
  next
    case False
    with assms have "parseGeminiJsonResponse (fenced tag p) = parseGeminiJsonResponse p"
      by (rule parse_fenced_unfenced)
    with rejected show ?thesis by simp
  qed
qed

lemma trim_example_payload: "\<not> prefix ''```'' (trim example_payload)"
  by code_simp

lemma parse_no_content: \<open>parseGeminiJsonResponse ''{"title":"T"}'' = Inl parse_failure\<close>
  by code_simp

theorem fenced_parses_like_unfenced_witness:
  \<open>(''json'' = [] \<or> ''json'' = ''json'') \<and>
   \<not> prefix ''```'' (trim example_payload) \<and>
   parseGeminiJsonResponse (fenced ''json'' example_payload) =
     Inr \<lparr>title = ''T'', content = ''C'', imagePrompt = Some (JStr ''P'')\<rparr> \<and>
   ([] = [] \<or> [] = ''json'') \<and>
   isl (parseGeminiJsonResponse ''{"title":"T"}'') \<and>
   isl (parseGeminiJsonResponse (fenced [] ''{"title":"T"}''))\<close>
  using fenced_parses_like_unfenced [of "''json''" example_payload]
    fenced_parses_like_unfenced [of "[]" \<open>''{"title":"T"}''\<close>]
    trim_example_payload parse_example_payload parse_no_content
  by simp

end
